theory Spec2Isabelle
  imports Complex_Main
begin

text \<open>
  A shallow embedding of the Python runtime's schema helpers (\<^verbatim>\<open>types.py\<close>:
  \<^verbatim>\<open>find_struct\<close>, \<^verbatim>\<open>find_enum\<close>, \<^verbatim>\<open>get_struct_fields\<close>) and of its
  validators (\<^verbatim>\<open>validation.py\<close>: \<^verbatim>\<open>validate_string\<close> up to \<^verbatim>\<open>validate_type\<close>).
  A validator returns \<open>Inr ()\<close> where the Python function returns normally and
  \<open>Inl e\<close> where it raises; \<open>e\<close> records which \<^verbatim>\<open>raise\<close> statement fired and the
  data its message is built from.
\<close>

section \<open>Decoded values\<close>

text \<open>
  The validators receive decoded JSON-like data. The payload of a float is never
  inspected by the code; it is kept so that concrete inputs such as \<open>3.14\<close> can be
  written down. \<open>VDict\<close> lists the items of a dictionary in iteration order; keys
  may be arbitrary values because \<^verbatim>\<open>validate_map\<close> tests them with \<^verbatim>\<open>isinstance\<close>.
\<close>

datatype pyfloat = Finite rat | PosInf | NegInf | NaN

datatype pyval =
    VNone
  | VBool bool
  | VInt int
  | VFloat pyfloat
  | VStr string
  | VList "pyval list"
  | VDict "(pyval \<times> pyval) list"

text \<open>\<^verbatim>\<open>type(value).__name__\<close>, which the error messages quote.\<close>

fun type_name :: "pyval \<Rightarrow> string" where
  "type_name VNone = ''NoneType''"
| "type_name (VBool _) = ''bool''"
| "type_name (VInt _) = ''int''"
| "type_name (VFloat _) = ''float''"
| "type_name (VStr _) = ''str''"
| "type_name (VList _) = ''list''"
| "type_name (VDict _) = ''dict''"

text \<open>
  Python's \<^verbatim>\<open>isinstance\<close> on the four classes the validators test. In Python
  \<^verbatim>\<open>bool\<close> is a subclass of \<^verbatim>\<open>int\<close>, so \<^verbatim>\<open>isinstance(True, int)\<close> holds, while
  \<^verbatim>\<open>isinstance(1, bool)\<close> does not.
\<close>

fun isinstance_str :: "pyval \<Rightarrow> bool" where
  "isinstance_str (VStr _) = True"
| "isinstance_str _ = False"

fun isinstance_int :: "pyval \<Rightarrow> bool" where
  "isinstance_int (VInt _) = True"
| "isinstance_int (VBool _) = True"
| "isinstance_int _ = False"

fun isinstance_float :: "pyval \<Rightarrow> bool" where
  "isinstance_float (VFloat _) = True"
| "isinstance_float _ = False"

fun isinstance_bool :: "pyval \<Rightarrow> bool" where
  "isinstance_bool (VBool _) = True"
| "isinstance_bool _ = False"

section \<open>Schema dictionaries\<close>

text \<open>
  The schema is passed around as dictionaries. Each kind of dictionary is a datatype
  with one optional component per key that the code reads: \<open>None\<close> stands for a key
  that is absent (or holds \<^verbatim>\<open>None\<close>). A type definition has the keys
  \<^verbatim>\<open>builtIn\<close>, \<^verbatim>\<open>array\<close>, \<^verbatim>\<open>mapValue\<close> and \<^verbatim>\<open>userDefined\<close>; a field has
  \<^verbatim>\<open>name\<close>, \<^verbatim>\<open>type\<close> (both read with \<^verbatim>\<open>field[...]\<close>) and \<^verbatim>\<open>optional\<close>
  (read with \<^verbatim>\<open>field.get('optional', False)\<close>); a struct has \<^verbatim>\<open>extends\<close> and
  \<^verbatim>\<open>fields\<close>; an enum has \<^verbatim>\<open>values\<close>, each with a \<^verbatim>\<open>name\<close>.
\<close>

datatype type_def =
  TypeDef (builtIn: "string option") (array: "type_def option")
          (mapValue: "type_def option") (userDefined: "string option")

datatype field =
  FieldDef (field_name: string) (field_type: type_def) (field_optional: "bool option")

datatype struct_def =
  StructDef (extends: "string option") (fields: "field list option")

datatype enum_value = EnumValue (enum_value_name: string)

datatype enum_def = EnumDef (enum_values: "enum_value list option")

text \<open>
  Python truthiness, as used by \<^verbatim>\<open>if struct_def:\<close>, \<^verbatim>\<open>if not struct_def:\<close>,
  \<^verbatim>\<open>elif type_def.get('array'):\<close> and the like: the test passes when the looked-up
  value is present and is not empty (a string of length zero and a dictionary without
  keys are false).
\<close>

definition truthy :: "('a \<Rightarrow> bool) \<Rightarrow> 'a option \<Rightarrow> 'a option" where
  "truthy nonempty x =
     (case x of None \<Rightarrow> None | Some d \<Rightarrow> if nonempty d then Some d else None)"

definition str_nonempty :: "string \<Rightarrow> bool" where
  "str_nonempty s = (s \<noteq> [])"

definition type_def_nonempty :: "type_def \<Rightarrow> bool" where
  "type_def_nonempty t = (t \<noteq> TypeDef None None None None)"

definition struct_def_nonempty :: "struct_def \<Rightarrow> bool" where
  "struct_def_nonempty d = (d \<noteq> StructDef None None)"

definition enum_def_nonempty :: "enum_def \<Rightarrow> bool" where
  "enum_def_nonempty d = (d \<noteq> EnumDef None)"

text \<open>\<^verbatim>\<open>d.get(key, default)\<close>.\<close>

definition get_or :: "'a option \<Rightarrow> 'a \<Rightarrow> 'a" where
  "get_or x d = (case x of None \<Rightarrow> d | Some v \<Rightarrow> v)"

text \<open>
  The type references of the tests, as dictionaries with a single key:
  \<^verbatim>\<open>{'builtIn': kind}\<close>, \<^verbatim>\<open>{'array': t}\<close>, \<^verbatim>\<open>{'mapValue': t}\<close>,
  \<^verbatim>\<open>{'userDefined': name}\<close>.
\<close>

definition builtin :: "string \<Rightarrow> type_def" where
  "builtin kind = TypeDef (Some kind) None None None"

definition array_type :: "type_def \<Rightarrow> type_def" where
  "array_type t = TypeDef None (Some t) None None"

definition map_type :: "type_def \<Rightarrow> type_def" where
  "map_type t = TypeDef None None (Some t) None"

definition user_defined :: "string \<Rightarrow> type_def" where
  "user_defined n = TypeDef None None None (Some n)"

section \<open>types.py\<close>

definition find_struct :: "string \<Rightarrow> (string \<rightharpoonup> struct_def) \<Rightarrow> struct_def option" where
  "find_struct struct_name all_structs = all_structs struct_name"

definition find_enum :: "string \<Rightarrow> (string \<rightharpoonup> enum_def) \<Rightarrow> enum_def option" where
  "find_enum enum_name all_enums = all_enums enum_name"

text \<open>
  The inner loop of \<^verbatim>\<open>get_struct_fields\<close>:
  \<^verbatim>\<open>for i, f in enumerate(fields): if f['name'] == field['name']: fields[i] = field; break\<close>.
\<close>

fun override_field :: "field list \<Rightarrow> field \<Rightarrow> field list" where
  "override_field [] fld = []"
| "override_field (f # fs) fld =
     (if field_name f = field_name fld then fld # fs else f # override_field fs fld)"

text \<open>
  One round of the outer loop, on the pair of the list \<^verbatim>\<open>fields\<close> and the set
  \<^verbatim>\<open>field_names\<close>. The set is only extended when a field is appended.
\<close>

fun add_child_field :: "field list \<times> string set \<Rightarrow> field \<Rightarrow> field list \<times> string set" where
  "add_child_field (flds, field_names) fld =
     (if field_name fld \<notin> field_names
      then (flds @ [fld], insert (field_name fld) field_names)
      else (override_field flds fld, field_names))"

text \<open>
  The outer loop, started as the code starts it: \<^verbatim>\<open>fields\<close> holds the parent's
  fields and \<^verbatim>\<open>field_names = {f['name'] for f in fields}\<close>.
\<close>

definition add_child_fields :: "field list \<Rightarrow> field list \<Rightarrow> field list" where
  "add_child_fields flds child =
     fst (foldl add_child_field (flds, set (map field_name flds)) child)"

text \<open>
  \<^verbatim>\<open>get_struct_fields\<close> recurses along \<^verbatim>\<open>extends\<close> with no guard against a cycle,
  so it is a partial function: \<open>None\<close> is the run that does not return (Python ends it
  with \<^verbatim>\<open>RecursionError\<close>).
\<close>

partial_function (option) get_struct_fields ::
  "string \<Rightarrow> (string \<rightharpoonup> struct_def) \<Rightarrow> field list option" where
  "get_struct_fields struct_name all_structs =
     (case truthy struct_def_nonempty (find_struct struct_name all_structs) of
        None \<Rightarrow> Some []
      | Some struct_def \<Rightarrow>
          Option.bind
            (case truthy str_nonempty (extends struct_def) of
               None \<Rightarrow> Some []
             | Some parent \<Rightarrow> get_struct_fields parent all_structs)
            (\<lambda>parent_fields.
               Some (add_child_fields parent_fields (get_or (fields struct_def) []))))"

section \<open>validation.py\<close>

text \<open>
  One constructor per \<^verbatim>\<open>raise\<close> statement, with the values its message formats.
  The three wrapping errors keep the error they wrap (\<^verbatim>\<open>raise ... from e\<close>).
  \<open>RecursionError\<close> is what a cyclic \<^verbatim>\<open>extends\<close> chain ends in.
\<close>

datatype error =
    ExpectedString string
  | ExpectedInt string
  | ExpectedFloat string
  | ExpectedBool string
  | ExpectedList string
  | ArrayElementFailed nat error
  | ExpectedDict string
  | MapKeyNotString string
  | MapValueFailed string error
  | ExpectedEnumString string string
  | InvalidEnumValue string string "string list"
  | ExpectedStructDict string string
  | MissingRequiredField string string
  | FieldCannotBeNone string string
  | FieldFailed string string error
  | NoneNotAllowed
  | UnknownUserType string
  | InvalidTypeDef type_def
  | RecursionError

type_synonym result = "error + unit"

definition validate_string :: "pyval \<Rightarrow> result" where
  "validate_string v =
     (if \<not> isinstance_str v then Inl (ExpectedString (type_name v)) else Inr ())"

definition validate_int :: "pyval \<Rightarrow> result" where
  "validate_int v =
     (if \<not> isinstance_int v then Inl (ExpectedInt (type_name v)) else Inr ())"

definition validate_float :: "pyval \<Rightarrow> result" where
  "validate_float v =
     (if \<not> (isinstance_int v \<or> isinstance_float v)
      then Inl (ExpectedFloat (type_name v)) else Inr ())"

definition validate_bool :: "pyval \<Rightarrow> result" where
  "validate_bool v =
     (if \<not> isinstance_bool v then Inl (ExpectedBool (type_name v)) else Inr ())"

text \<open>\<^verbatim>\<open>for i, elem in enumerate(value)\<close>, stopping at the first element that raises.\<close>

fun validate_array_loop :: "nat \<Rightarrow> pyval list \<Rightarrow> (pyval \<Rightarrow> result) \<Rightarrow> result" where
  "validate_array_loop i [] element_validator = Inr ()"
| "validate_array_loop i (elem # rest) element_validator =
     (case element_validator elem of
        Inl e \<Rightarrow> Inl (ArrayElementFailed i e)
      | Inr _ \<Rightarrow> validate_array_loop (Suc i) rest element_validator)"

definition validate_array :: "pyval \<Rightarrow> (pyval \<Rightarrow> result) \<Rightarrow> result" where
  "validate_array v element_validator =
     (case v of
        VList elems \<Rightarrow> validate_array_loop 0 elems element_validator
      | _ \<Rightarrow> Inl (ExpectedList (type_name v)))"

text \<open>
  \<^verbatim>\<open>for key, val in value.items()\<close>: the key is tested first, then the value is
  validated; the first item that raises ends the loop.
\<close>

fun validate_map_loop :: "(pyval \<times> pyval) list \<Rightarrow> (pyval \<Rightarrow> result) \<Rightarrow> result" where
  "validate_map_loop [] value_validator = Inr ()"
| "validate_map_loop ((key, val) # rest) value_validator =
     (case key of
        VStr k \<Rightarrow>
          (case value_validator val of
             Inl e \<Rightarrow> Inl (MapValueFailed k e)
           | Inr _ \<Rightarrow> validate_map_loop rest value_validator)
      | _ \<Rightarrow> Inl (MapKeyNotString (type_name key)))"

definition validate_map :: "pyval \<Rightarrow> (pyval \<Rightarrow> result) \<Rightarrow> result" where
  "validate_map v value_validator =
     (case v of
        VDict items \<Rightarrow> validate_map_loop items value_validator
      | _ \<Rightarrow> Inl (ExpectedDict (type_name v)))"

definition validate_enum :: "pyval \<Rightarrow> string \<Rightarrow> string list \<Rightarrow> result" where
  "validate_enum v enum_name allowed_values =
     (case v of
        VStr s \<Rightarrow>
          (if s \<notin> set allowed_values
           then Inl (InvalidEnumValue enum_name s allowed_values) else Inr ())
      | _ \<Rightarrow> Inl (ExpectedEnumString enum_name (type_name v)))"

text \<open>\<^verbatim>\<open>is_optional = field.get('optional', False)\<close>.\<close>

definition is_optional_of :: "field \<Rightarrow> bool" where
  "is_optional_of fld = get_or (field_optional fld) False"

text \<open>
  The loop \<^verbatim>\<open>for field in fields\<close> of \<^verbatim>\<open>validate_struct\<close>. \<^verbatim>\<open>field_name in value\<close>
  and \<^verbatim>\<open>value[field_name]\<close> look the string key up in the dictionary. The field
  validator is the \<^verbatim>\<open>lambda\<close> the code builds for each field.
\<close>

fun validate_struct_loop ::
  "(pyval \<times> pyval) list \<Rightarrow> string \<Rightarrow> field list \<Rightarrow> (field \<Rightarrow> pyval \<Rightarrow> result) \<Rightarrow> result" where
  "validate_struct_loop items struct_name [] field_validator = Inr ()"
| "validate_struct_loop items struct_name (fld # rest) field_validator =
     (case map_of items (VStr (field_name fld)) of
        None \<Rightarrow>
          (if \<not> is_optional_of fld
           then Inl (MissingRequiredField (field_name fld) struct_name)
           else validate_struct_loop items struct_name rest field_validator)
      | Some field_value \<Rightarrow>
          (if field_value = VNone
           then (if \<not> is_optional_of fld
                 then Inl (FieldCannotBeNone (field_name fld) struct_name)
                 else validate_struct_loop items struct_name rest field_validator)
           else (case field_validator fld field_value of
                   Inl e \<Rightarrow> Inl (FieldFailed (field_name fld) struct_name e)
                 | Inr _ \<Rightarrow> validate_struct_loop items struct_name rest field_validator)))"

subsection \<open>The loops only call their validator on parts of the value\<close>

lemma size_elem_less: "elem \<in> set elems \<Longrightarrow> size elem < size (VList elems)"
  by (induction elems) auto

lemma size_item_less: "(k, val) \<in> set items \<Longrightarrow> size val < size (VDict items)"
  by (induction items) auto

lemma size_lookup_less: "map_of items k = Some val \<Longrightarrow> size val < size (VDict items)"
  using map_of_SomeD [of items k val] size_item_less [of k val items] by blast

lemma validate_array_loop_ext:
  "(\<And>elem. elem \<in> set elems \<Longrightarrow> f elem = g elem)
   \<Longrightarrow> validate_array_loop i elems f = validate_array_loop i elems g"
  by (induction elems arbitrary: i) (simp_all split: sum.splits)

lemma validate_array_cong [fundef_cong]:
  "v = v' \<Longrightarrow> (\<And>elems elem. v' = VList elems \<Longrightarrow> elem \<in> set elems \<Longrightarrow> f elem = g elem)
   \<Longrightarrow> validate_array v f = validate_array v' g"
  unfolding validate_array_def
  by (cases v') (auto intro: validate_array_loop_ext)

lemma validate_map_loop_ext:
  "(\<And>k val. (k, val) \<in> set items \<Longrightarrow> f val = g val)
   \<Longrightarrow> validate_map_loop items f = validate_map_loop items g"
proof (induction items)
  case Nil
  then show ?case by simp
next
  case (Cons item rest)
  obtain k val where item: "item = (k, val)" by (cases item)
  have head: "f val = g val" using Cons.prems [of k val] item by simp
  have tail: "validate_map_loop rest f = validate_map_loop rest g"
    by (rule Cons.IH) (use Cons.prems in auto)
  show ?case using item head tail
    by (simp split: pyval.splits sum.splits)
qed

lemma validate_map_cong [fundef_cong]:
  "v = v' \<Longrightarrow> (\<And>items k val. v' = VDict items \<Longrightarrow> (k, val) \<in> set items \<Longrightarrow> f val = g val)
   \<Longrightarrow> validate_map v f = validate_map v' g"
  unfolding validate_map_def
  by (cases v') (auto intro: validate_map_loop_ext)

lemma validate_struct_loop_ext:
  "(\<And>fld val. fld \<in> set flds \<Longrightarrow> map_of items (VStr (field_name fld)) = Some val
       \<Longrightarrow> f fld val = g fld val)
   \<Longrightarrow> validate_struct_loop items struct_name flds f =
       validate_struct_loop items struct_name flds g"
proof (induction flds)
  case Nil
  then show ?case by simp
next
  case (Cons fld rest)
  have tail: "validate_struct_loop items struct_name rest f =
              validate_struct_loop items struct_name rest g"
    by (rule Cons.IH) (simp add: Cons.prems)
  have head: "\<And>val. map_of items (VStr (field_name fld)) = Some val \<Longrightarrow> f fld val = g fld val"
    using Cons.prems [of fld] by simp
  show ?case using tail head
    by (simp split: option.splits sum.splits)
qed

lemma validate_struct_loop_cong [fundef_cong]:
  "items = items' \<Longrightarrow> struct_name = struct_name' \<Longrightarrow> flds = flds' \<Longrightarrow>
   (\<And>fld val. fld \<in> set flds' \<Longrightarrow> map_of items' (VStr (field_name fld)) = Some val
       \<Longrightarrow> f fld val = g fld val)
   \<Longrightarrow> validate_struct_loop items struct_name flds f =
       validate_struct_loop items' struct_name' flds' g"
  using validate_struct_loop_ext [of flds' items' f g struct_name'] by simp

subsection \<open>The mutually recursive validators\<close>

text \<open>
  \<^verbatim>\<open>validate_type\<close> follows the \<^verbatim>\<open>if\<close>/\<^verbatim>\<open>elif\<close> chain of the source in its order.
  \<^verbatim>\<open>validate_struct\<close> receives \<^verbatim>\<open>struct_def\<close> and, as in the source, does not read
  it: the fields come from \<^verbatim>\<open>get_struct_fields(struct_name, all_structs)\<close>. Every
  recursive call is on a part of the value, which is why the recursion ends.
\<close>

function validate_type ::
    "pyval \<Rightarrow> type_def \<Rightarrow> (string \<rightharpoonup> struct_def) \<Rightarrow> (string \<rightharpoonup> enum_def) \<Rightarrow> bool \<Rightarrow> result"
  and validate_struct ::
    "pyval \<Rightarrow> string \<Rightarrow> struct_def \<Rightarrow> (string \<rightharpoonup> struct_def) \<Rightarrow> (string \<rightharpoonup> enum_def) \<Rightarrow> result"
where
  "validate_type v type_def all_structs all_enums is_optional =
     (if v = VNone then (if is_optional then Inr () else Inl NoneNotAllowed)
      else if builtIn type_def = Some ''string'' then validate_string v
      else if builtIn type_def = Some ''int'' then validate_int v
      else if builtIn type_def = Some ''float'' then validate_float v
      else if builtIn type_def = Some ''bool'' then validate_bool v
      else
        (case truthy type_def_nonempty (array type_def) of
           Some element_type \<Rightarrow>
             validate_array v (\<lambda>x. validate_type x element_type all_structs all_enums False)
         | None \<Rightarrow>
        (case truthy type_def_nonempty (mapValue type_def) of
           Some value_type \<Rightarrow>
             validate_map v (\<lambda>x. validate_type x value_type all_structs all_enums False)
         | None \<Rightarrow>
        (case truthy str_nonempty (userDefined type_def) of
           Some user_type \<Rightarrow>
             (case truthy struct_def_nonempty (find_struct user_type all_structs) of
                Some struct_def \<Rightarrow> validate_struct v user_type struct_def all_structs all_enums
              | None \<Rightarrow>
                  (case truthy enum_def_nonempty (find_enum user_type all_enums) of
                     Some enum_def \<Rightarrow>
                       validate_enum v user_type
                         (map enum_value_name (get_or (enum_values enum_def) []))
                   | None \<Rightarrow> Inl (UnknownUserType user_type)))
         | None \<Rightarrow> Inl (InvalidTypeDef type_def)))))"
| "validate_struct v struct_name struct_def all_structs all_enums =
     (case v of
        VDict items \<Rightarrow>
          (case get_struct_fields struct_name all_structs of
             None \<Rightarrow> Inl RecursionError
           | Some flds \<Rightarrow>
               validate_struct_loop items struct_name flds
                 (\<lambda>fld x. validate_type x (field_type fld) all_structs all_enums
                            (is_optional_of fld)))
      | _ \<Rightarrow> Inl (ExpectedStructDict struct_name (type_name v)))"
  by pat_completeness auto
termination
  apply (relation "measure (\<lambda>x. case x of
            Inl (v, _) \<Rightarrow> 2 * size v + 1
          | Inr (v, _) \<Rightarrow> 2 * size v)")
  apply (auto dest!: size_elem_less size_item_less size_lookup_less)
  done

text \<open>The defining equations are unfolded only where a proof asks for them.\<close>

declare validate_type.simps [simp del] validate_struct.simps [simp del]

section \<open>Notions used to state the properties\<close>

text \<open>
  The resolution rule in the specification's words, to be compared with the loop of
  \<^verbatim>\<open>get_struct_fields\<close>: a field whose name is not in the accumulated list is
  appended; otherwise it replaces the entry at the position of that name.
  \<open>first_index n flds\<close> is the position of the first field named \<open>n\<close>.
\<close>

definition first_index :: "string \<Rightarrow> field list \<Rightarrow> nat" where
  "first_index n flds = length (takeWhile (\<lambda>f. field_name f \<noteq> n) flds)"

definition spec_add_field :: "field list \<Rightarrow> field \<Rightarrow> field list" where
  "spec_add_field acc fld =
     (if field_name fld \<notin> set (map field_name acc) then acc @ [fld]
      else acc[first_index (field_name fld) acc := fld])"

text \<open>
  The name \<^verbatim>\<open>get_struct_fields\<close> recurses on: the \<^verbatim>\<open>extends\<close> value of a struct that
  is found, when both pass the truth tests of the code. \<open>extends_rel\<close> is the relation
  "parent of" that these steps form.
\<close>

definition parent_struct :: "(string \<rightharpoonup> struct_def) \<Rightarrow> string \<Rightarrow> string option" where
  "parent_struct all_structs struct_name =
     (case truthy struct_def_nonempty (find_struct struct_name all_structs) of
        None \<Rightarrow> None
      | Some struct_def \<Rightarrow> truthy str_nonempty (extends struct_def))"

definition extends_rel :: "(string \<rightharpoonup> struct_def) \<Rightarrow> (string \<times> string) set" where
  "extends_rel all_structs =
     {(parent, child). parent_struct all_structs child = Some parent}"

text \<open>The schemas of \<^verbatim>\<open>test_types.py\<close>, and three more with irregular declarations.\<close>

definition extends_schema :: "string \<rightharpoonup> struct_def" where
  "extends_schema = [
     ''Base'' \<mapsto> StructDef None (Some [FieldDef ''id'' (builtin ''string'') None]),
     ''User'' \<mapsto> StructDef (Some ''Base'')
        (Some [FieldDef ''name'' (builtin ''string'') None])]"

definition override_schema :: "string \<rightharpoonup> struct_def" where
  "override_schema = [
     ''Base'' \<mapsto> StructDef None (Some [FieldDef ''id'' (builtin ''string'') None]),
     ''User'' \<mapsto> StructDef (Some ''Base'')
        (Some [FieldDef ''id'' (builtin ''int'') None,
               FieldDef ''name'' (builtin ''string'') None])]"

definition dup_schema :: "string \<rightharpoonup> struct_def" where
  "dup_schema = [
     ''Base'' \<mapsto> StructDef None (Some [FieldDef ''id'' (builtin ''string'') None]),
     ''User'' \<mapsto> StructDef (Some ''Base'')
        (Some [FieldDef ''name'' (builtin ''string'') None,
               FieldDef ''name'' (builtin ''int'') (Some True),
               FieldDef ''id'' (builtin ''int'') None])]"

definition orphan_schema :: "string \<rightharpoonup> struct_def" where
  "orphan_schema = [
     ''User'' \<mapsto> StructDef (Some ''Missing'')
        (Some [FieldDef ''name'' (builtin ''string'') None])]"

definition self_schema :: "string \<rightharpoonup> struct_def" where
  "self_schema = [''Node'' \<mapsto> StructDef (Some ''Node'') (Some [])]"

text \<open>
  The check that \<^verbatim>\<open>validate_struct\<close> makes for one field, as a predicate: an absent
  key and a key that holds \<^verbatim>\<open>None\<close> pass exactly when the field is optional; any
  other value passes when the field validator accepts it.
\<close>

definition field_check ::
  "(pyval \<times> pyval) list \<Rightarrow> (field \<Rightarrow> pyval \<Rightarrow> result) \<Rightarrow> field \<Rightarrow> bool" where
  "field_check items field_validator fld =
     (case map_of items (VStr (field_name fld)) of
        None \<Rightarrow> is_optional_of fld
      | Some field_value \<Rightarrow>
          if field_value = VNone then is_optional_of fld
          else field_validator fld field_value = Inr ())"

text \<open>
  "An integral number" in the specification's words: an integer, or a floating value
  without a fractional part. Booleans are not numbers.
\<close>

fun spec_integral_number :: "pyval \<Rightarrow> bool" where
  "spec_integral_number (VInt _) = True"
| "spec_integral_number (VFloat (Finite r)) = (of_int \<lfloor>r\<rfloor> = r)"
| "spec_integral_number _ = False"

text \<open>Schemas for the validators: the struct and the enum of \<^verbatim>\<open>test_validation.py\<close>.\<close>

definition user_schema :: "string \<rightharpoonup> struct_def" where
  "user_schema = [
     ''User'' \<mapsto> StructDef None
        (Some [FieldDef ''id'' (builtin ''string'') (Some False),
               FieldDef ''email'' (builtin ''string'') (Some True)])]"

definition platform_enums :: "string \<rightharpoonup> enum_def" where
  "platform_enums =
     [''Platform'' \<mapsto> EnumDef (Some [EnumValue ''kindle'', EnumValue ''nook''])]"

definition platform_structs :: "string \<rightharpoonup> struct_def" where
  "platform_structs = [''Platform'' \<mapsto> StructDef None (Some [])]"

section \<open>Field resolution\<close>

lemmas schema_eval =
  find_struct_def truthy_def struct_def_nonempty_def str_nonempty_def get_or_def

subsection \<open>The loop against the rule\<close>

lemma override_field_names: "map field_name (override_field flds fld) = map field_name flds"
  by (induction flds) simp_all

lemma override_field_update:
  "field_name fld \<in> field_name ` set flds \<Longrightarrow>
   override_field flds fld = flds[first_index (field_name fld) flds := fld]"
  by (induction flds) (auto simp: first_index_def)

lemma first_index_less:
  "n \<in> field_name ` set flds \<Longrightarrow> first_index n flds < length flds"
  by (induction flds) (auto simp: first_index_def)

lemma spec_add_field_names:
  "map field_name (spec_add_field acc fld) =
     (if field_name fld \<in> field_name ` set acc then map field_name acc
      else map field_name acc @ [field_name fld])"
  using override_field_update [of fld acc] override_field_names [of acc fld]
  by (auto simp: spec_add_field_def)

text \<open>The set \<^verbatim>\<open>field_names\<close> always holds the names of the list \<^verbatim>\<open>fields\<close>.\<close>

lemma add_child_field_spec:
  "add_child_field (acc, field_name ` set acc) fld =
     (spec_add_field acc fld, field_name ` set (spec_add_field acc fld))"
proof (cases "field_name fld \<in> field_name ` set acc")
  case True
  have "set (map field_name (spec_add_field acc fld)) = set (map field_name acc)"
    using True by (simp only: spec_add_field_names if_True)
  then have "field_name ` set (spec_add_field acc fld) = field_name ` set acc"
    by simp
  then show ?thesis
    using True override_field_update [of fld acc]
    by (simp add: spec_add_field_def)
next
  case False
  then show ?thesis by (simp add: spec_add_field_def)
qed

lemma foldl_add_child_field_spec:
  "foldl add_child_field (acc, field_name ` set acc) child =
     (foldl spec_add_field acc child, field_name ` set (foldl spec_add_field acc child))"
proof (induction child arbitrary: acc)
  case Nil
  show ?case by simp
next
  case (Cons fld rest)
  show ?case using Cons.IH [of "spec_add_field acc fld"]
    by (simp add: add_child_field_spec del: add_child_field.simps)
qed

lemma add_child_fields_spec: "add_child_fields flds child = foldl spec_add_field flds child"
  by (simp add: add_child_fields_def foldl_add_child_field_spec)

lemma foldl_spec_add_field_distinct:
  "distinct (map field_name acc) \<Longrightarrow>
   distinct (map field_name (foldl spec_add_field acc child))"
  by (induction child arbitrary: acc) (simp_all add: spec_add_field_names)

lemma add_child_fields_distinct:
  "distinct (map field_name flds) \<Longrightarrow> distinct (map field_name (add_child_fields flds child))"
  by (simp add: add_child_fields_spec foldl_spec_add_field_distinct)

lemma foldl_spec_add_field_fresh:
  "distinct (map field_name child) \<Longrightarrow>
   field_name ` set acc \<inter> field_name ` set child = {} \<Longrightarrow>
   foldl spec_add_field acc child = acc @ child"
proof (induction child arbitrary: acc)
  case Nil
  show ?case by simp
next
  case (Cons fld rest)
  have step: "spec_add_field acc fld = acc @ [fld]"
    using Cons.prems(2) by (auto simp: spec_add_field_def)
  have "foldl spec_add_field (acc @ [fld]) rest = (acc @ [fld]) @ rest"
    using Cons.prems by (intro Cons.IH) auto
  then show ?case using step by simp
qed

subsection \<open>Which declaration a name resolves to\<close>

lemma find_append_cases:
  "find P (xs @ ys) = (case find P xs of None \<Rightarrow> find P ys | Some x \<Rightarrow> Some x)"
  by (induction xs) simp_all

lemma find_list_update_first:
  "field_name fld \<in> field_name ` set acc \<Longrightarrow>
   find (\<lambda>f. field_name f = n) (acc[first_index (field_name fld) acc := fld]) =
     (if field_name fld = n then Some fld else find (\<lambda>f. field_name f = n) acc)"
  by (induction acc) (auto simp: first_index_def)

lemma find_not_in: "n \<notin> field_name ` set acc \<Longrightarrow> find (\<lambda>f. field_name f = n) acc = None"
  by (induction acc) auto

lemma find_spec_add_field:
  "find (\<lambda>f. field_name f = n) (spec_add_field acc fld) =
     (if field_name fld = n then Some fld else find (\<lambda>f. field_name f = n) acc)"
proof (cases "field_name fld \<in> field_name ` set acc")
  case True
  then show ?thesis
    using find_list_update_first [of fld acc n] by (simp add: spec_add_field_def)
next
  case False
  then have "n = field_name fld \<Longrightarrow> find (\<lambda>f. field_name f = n) acc = None"
    by (simp add: find_not_in)
  then show ?thesis using False
    by (auto simp: spec_add_field_def find_append_cases split: option.splits)
qed

lemma find_foldl_spec_add_field:
  "find (\<lambda>f. field_name f = n) (foldl spec_add_field acc child) =
     (case find (\<lambda>f. field_name f = n) (rev child) of
        None \<Rightarrow> find (\<lambda>f. field_name f = n) acc
      | Some f \<Rightarrow> Some f)"
proof (induction child arbitrary: acc)
  case Nil
  show ?case by simp
next
  case (Cons fld rest)
  show ?case
    by (simp add: Cons.IH find_spec_add_field find_append_cases split: option.splits)
qed

subsection \<open>Unfolding the recursion\<close>

lemma parent_struct_dom:
  "parent_struct all_structs child = Some parent \<Longrightarrow> child \<in> dom all_structs"
  by (auto simp: parent_struct_def truthy_def find_struct_def split: option.splits if_splits)

lemma finite_extends_rel:
  assumes "finite (dom all_structs)"
  shows "finite (extends_rel all_structs)"
proof -
  have "extends_rel all_structs \<subseteq>
        (\<lambda>child. (the (parent_struct all_structs child), child)) ` dom all_structs"
    by (auto simp: extends_rel_def image_iff dest: parent_struct_dom)
  then show ?thesis using assms by (meson finite_imageI finite_subset)
qed

lemma get_struct_fields_no_parent:
  "parent_struct all_structs struct_name = None \<Longrightarrow>
   get_struct_fields struct_name all_structs =
     Some (case truthy struct_def_nonempty (find_struct struct_name all_structs) of
             None \<Rightarrow> []
           | Some struct_def \<Rightarrow> add_child_fields [] (get_or (fields struct_def) []))"
  by (subst get_struct_fields.simps) (simp add: parent_struct_def split: option.splits)

lemma get_struct_fields_parent:
  assumes "parent_struct all_structs struct_name = Some parent"
  shows "\<exists>struct_def.
     truthy struct_def_nonempty (find_struct struct_name all_structs) = Some struct_def \<and>
     truthy str_nonempty (extends struct_def) = Some parent \<and>
     get_struct_fields struct_name all_structs =
       Option.bind (get_struct_fields parent all_structs)
         (\<lambda>parent_fields. Some (add_child_fields parent_fields (get_or (fields struct_def) [])))"
proof -
  obtain struct_def where sd:
      "truthy struct_def_nonempty (find_struct struct_name all_structs) = Some struct_def"
      "truthy str_nonempty (extends struct_def) = Some parent"
    using assms by (auto simp: parent_struct_def split: option.splits)
  have "get_struct_fields struct_name all_structs =
       Option.bind (get_struct_fields parent all_structs)
         (\<lambda>parent_fields. Some (add_child_fields parent_fields (get_or (fields struct_def) [])))"
    by (subst get_struct_fields.simps) (simp add: sd)
  then show ?thesis using sd by blast
qed

text \<open>
  Along a well-founded "parent of" relation the recursion returns, and the names of
  the list it returns are pairwise different.
\<close>

lemma get_struct_fields_wf:
  assumes "wf (extends_rel all_structs)"
  shows "\<exists>flds. get_struct_fields struct_name all_structs = Some flds \<and>
                distinct (map field_name flds)"
  using assms
proof (induction struct_name rule: wf_induct_rule)
  case (less struct_name)
  show ?case
  proof (cases "parent_struct all_structs struct_name")
    case None
    then show ?thesis
      using get_struct_fields_no_parent [of all_structs struct_name]
      by (simp add: add_child_fields_distinct split: option.splits)
  next
    case (Some parent)
    then have "(parent, struct_name) \<in> extends_rel all_structs"
      by (simp add: extends_rel_def)
    then obtain pf where pf: "get_struct_fields parent all_structs = Some pf"
        "distinct (map field_name pf)"
      using less.IH by blast
    then show ?thesis
      using get_struct_fields_parent [OF Some]
      by (auto simp: add_child_fields_distinct)
  qed
qed

text \<open>A struct that extends itself: the recursion does not return.\<close>

lemma get_struct_fields_self_loop:
  assumes "get_struct_fields struct_name all_structs = Some flds"
  shows "parent_struct all_structs struct_name \<noteq> Some struct_name"
proof (rule get_struct_fields.raw_induct
    [where P = "\<lambda>n s y. parent_struct s n \<noteq> Some n", OF _ assms])
  fix gsf :: "string \<Rightarrow> (string \<rightharpoonup> struct_def) \<Rightarrow> field list option"
  fix n s y
  assume IH: "\<And>n s y. gsf n s = Some y \<Longrightarrow> parent_struct s n \<noteq> Some n"
  assume body: "(case truthy struct_def_nonempty (find_struct n s) of
        None \<Rightarrow> Some []
      | Some struct_def \<Rightarrow>
          Option.bind
            (case truthy str_nonempty (extends struct_def) of
               None \<Rightarrow> Some []
             | Some parent \<Rightarrow> gsf parent s)
            (\<lambda>parent_fields.
               Some (add_child_fields parent_fields (get_or (fields struct_def) [])))) = Some y"
  show "parent_struct s n \<noteq> Some n"
  proof
    assume loop: "parent_struct s n = Some n"
    then obtain struct_def where sd:
        "truthy struct_def_nonempty (find_struct n s) = Some struct_def"
        "truthy str_nonempty (extends struct_def) = Some n"
      by (auto simp: parent_struct_def split: option.splits)
    from body sd obtain pf where "gsf n s = Some pf"
      by (auto simp: bind_eq_Some_conv)
    then show False using IH loop by blast
  qed
qed

lemma get_struct_fields_self_schema: "get_struct_fields ''Node'' self_schema = None"
proof (cases "get_struct_fields ''Node'' self_schema")
  case None
  then show ?thesis .
next
  case (Some flds)
  then show ?thesis
    using get_struct_fields_self_loop [of "''Node''" self_schema flds]
    by (simp add: parent_struct_def self_schema_def schema_eval)
qed

subsection \<open>Properties of field resolution\<close>

text \<open>
  C1. For a struct that is found, the resolved field list is the parent's resolved
  list (the empty list when the struct extends nothing), to which the fields
  declared on the struct are added one by one in declaration order by the rule
  \<open>spec_add_field\<close>: appended when the name is new, and otherwise put at the position
  of the entry of that name, in its place. The witness below computes the two
  examples: \<open>Base = [id]\<close>, \<open>User extends Base = [name]\<close> gives \<open>[id, name]\<close>, and
  \<open>Base = [id:string]\<close>, \<open>User extends Base = [id:int, name:string]\<close> gives
  \<open>[id:int, name:string]\<close>.
\<close>

theorem get_struct_fields_resolution:
  assumes "truthy struct_def_nonempty (find_struct struct_name all_structs) = Some struct_def"
  shows "(truthy str_nonempty (extends struct_def) = None \<longrightarrow>
            get_struct_fields struct_name all_structs =
              Some (foldl spec_add_field [] (get_or (fields struct_def) []))) \<and>
         (truthy str_nonempty (extends struct_def) = Some parent \<longrightarrow>
            get_struct_fields struct_name all_structs =
              Option.bind (get_struct_fields parent all_structs)
                (\<lambda>parent_fields.
                   Some (foldl spec_add_field parent_fields (get_or (fields struct_def) [])))) \<and>
         (field_name fld \<in> set (map field_name acc) \<longrightarrow>
            map field_name (spec_add_field acc fld) = map field_name acc \<and>
            first_index (field_name fld) acc < length acc \<and>
            spec_add_field acc fld ! first_index (field_name fld) acc = fld)"
proof (intro conjI impI)
  show "get_struct_fields struct_name all_structs =
      Some (foldl spec_add_field [] (get_or (fields struct_def) []))"
    if "truthy str_nonempty (extends struct_def) = None"
    using that by (subst get_struct_fields.simps) (simp add: assms add_child_fields_spec)
  show "get_struct_fields struct_name all_structs =
      Option.bind (get_struct_fields parent all_structs)
        (\<lambda>parent_fields.
           Some (foldl spec_add_field parent_fields (get_or (fields struct_def) [])))"
    if "truthy str_nonempty (extends struct_def) = Some parent"
    using that by (subst get_struct_fields.simps) (simp add: assms add_child_fields_spec)
  assume present: "field_name fld \<in> set (map field_name acc)"
  then show "map field_name (spec_add_field acc fld) = map field_name acc"
    by (simp add: spec_add_field_names)
  show slot: "first_index (field_name fld) acc < length acc"
    using present by (simp add: first_index_less)
  show "spec_add_field acc fld ! first_index (field_name fld) acc = fld"
    using present slot by (simp add: spec_add_field_def)
qed

theorem get_struct_fields_resolution_witness:
  "get_struct_fields ''User'' extends_schema =
     Some [FieldDef ''id'' (builtin ''string'') None,
           FieldDef ''name'' (builtin ''string'') None] \<and>
   get_struct_fields ''User'' override_schema =
     Some [FieldDef ''id'' (builtin ''int'') None,
           FieldDef ''name'' (builtin ''string'') None] \<and>
   get_struct_fields ''Base'' override_schema =
     Some [FieldDef ''id'' (builtin ''string'') None]"
proof -
  let ?ext_user = "StructDef (Some ''Base'') (Some [FieldDef ''name'' (builtin ''string'') None])"
  let ?ovr_user = "StructDef (Some ''Base'')
        (Some [FieldDef ''id'' (builtin ''int'') None,
               FieldDef ''name'' (builtin ''string'') None])"
  let ?base = "StructDef None (Some [FieldDef ''id'' (builtin ''string'') None])"
  have e: "truthy struct_def_nonempty (find_struct ''User'' extends_schema) = Some ?ext_user"
    by (simp add: extends_schema_def schema_eval)
  have o: "truthy struct_def_nonempty (find_struct ''User'' override_schema) = Some ?ovr_user"
    by (simp add: override_schema_def schema_eval)
  have eb: "truthy struct_def_nonempty (find_struct ''Base'' extends_schema) = Some ?base"
    by (simp add: extends_schema_def schema_eval)
  have ob: "truthy struct_def_nonempty (find_struct ''Base'' override_schema) = Some ?base"
    by (simp add: override_schema_def schema_eval)
  have base_e: "get_struct_fields ''Base'' extends_schema =
      Some [FieldDef ''id'' (builtin ''string'') None]"
    using get_struct_fields_resolution [OF eb]
    by (simp add: schema_eval spec_add_field_def)
  have base_o: "get_struct_fields ''Base'' override_schema =
      Some [FieldDef ''id'' (builtin ''string'') None]"
    using get_struct_fields_resolution [OF ob]
    by (simp add: schema_eval spec_add_field_def)
  show ?thesis
    using get_struct_fields_resolution [OF e, of "''Base''"]
      get_struct_fields_resolution [OF o, of "''Base''"] base_e base_o
    by (simp add: schema_eval spec_add_field_def first_index_def)
qed

text \<open>
  C9. Resolution does not fail on a missing struct: a name that the schema does not
  hold resolves to the empty list, and a struct whose \<^verbatim>\<open>extends\<close> names a struct that
  the schema does not hold resolves to what its own declarations give by the
  override rule alone, which is the list of its declared fields when their names
  are pairwise different. In both cases a list is returned (\<open>Some\<close>), not an error.
\<close>

theorem get_struct_fields_lenient:
  "(find_struct struct_name all_structs = None \<longrightarrow>
      get_struct_fields struct_name all_structs = Some []) \<and>
   (find_struct struct_name all_structs = Some struct_def \<and>
    extends struct_def = Some parent \<and> find_struct parent all_structs = None \<longrightarrow>
      get_struct_fields struct_name all_structs =
        Some (add_child_fields [] (get_or (fields struct_def) [])) \<and>
      (distinct (map field_name (get_or (fields struct_def) [])) \<longrightarrow>
         get_struct_fields struct_name all_structs = Some (get_or (fields struct_def) [])))"
proof (intro conjI impI)
  assume "find_struct struct_name all_structs = None"
  then show "get_struct_fields struct_name all_structs = Some []"
    by (subst get_struct_fields.simps) (simp add: truthy_def)
next
  assume a: "find_struct struct_name all_structs = Some struct_def \<and>
    extends struct_def = Some parent \<and> find_struct parent all_structs = None"
  then have ne: "struct_def_nonempty struct_def"
    by (auto simp: struct_def_nonempty_def)
  have parent: "get_struct_fields parent all_structs = Some []"
    using a by (subst get_struct_fields.simps) (simp add: truthy_def)
  show own: "get_struct_fields struct_name all_structs =
        Some (add_child_fields [] (get_or (fields struct_def) []))"
    using a parent ne
    by (subst get_struct_fields.simps) (simp add: truthy_def)
  assume "distinct (map field_name (get_or (fields struct_def) []))"
  then show "get_struct_fields struct_name all_structs = Some (get_or (fields struct_def) [])"
    using own foldl_spec_add_field_fresh [of "get_or (fields struct_def) []" "[]"]
    by (simp add: add_child_fields_spec)
qed

theorem get_struct_fields_lenient_witness:
  "find_struct ''Nobody'' orphan_schema = None \<and>
   get_struct_fields ''Nobody'' orphan_schema = Some [] \<and>
   find_struct ''Missing'' orphan_schema = None \<and>
   get_struct_fields ''User'' orphan_schema =
     Some [FieldDef ''name'' (builtin ''string'') None]"
  using get_struct_fields_lenient [of "''Nobody''" orphan_schema]
    get_struct_fields_lenient [of "''User''" orphan_schema
      "StructDef (Some ''Missing'') (Some [FieldDef ''name'' (builtin ''string'') None])"
      "''Missing''"]
  by (simp add: orphan_schema_def schema_eval add_child_fields_def)

text \<open>
  C10. For a schema (a dictionary, so with finitely many structs) whose \<^verbatim>\<open>extends\<close>
  steps form no cycle, resolution returns for every struct name, and no field name
  occurs twice in the list it returns. Nothing is assumed about the declarations:
  a struct may declare a name twice. The entry that a name resolves to is the last
  declaration of that name on the struct, and the entry of the parent's list when
  the struct does not declare the name.
\<close>

theorem get_struct_fields_distinct:
  assumes "finite (dom all_structs)" and "acyclic (extends_rel all_structs)"
  shows "(\<exists>flds. get_struct_fields struct_name all_structs = Some flds \<and>
                 distinct (map field_name flds)) \<and>
         find (\<lambda>f. field_name f = n) (add_child_fields parent_fields child) =
           (case find (\<lambda>f. field_name f = n) (rev child) of
              None \<Rightarrow> find (\<lambda>f. field_name f = n) parent_fields
            | Some f \<Rightarrow> Some f)"
proof -
  have "wf (extends_rel all_structs)"
    using assms by (simp add: finite_acyclic_wf finite_extends_rel)
  then show ?thesis
    using get_struct_fields_wf [of all_structs struct_name]
    by (simp add: add_child_fields_spec find_foldl_spec_add_field)
qed

theorem get_struct_fields_distinct_witness:
  "finite (dom dup_schema) \<and> acyclic (extends_rel dup_schema) \<and>
   (\<exists>flds. get_struct_fields ''User'' dup_schema = Some flds \<and>
           distinct (map field_name flds)) \<and>
   get_struct_fields ''User'' dup_schema =
     Some [FieldDef ''id'' (builtin ''int'') None,
           FieldDef ''name'' (builtin ''int'') (Some True)]"
proof -
  have rel: "extends_rel dup_schema = {(''Base'', ''User'')}"
    by (auto simp: extends_rel_def parent_struct_def dup_schema_def schema_eval
        split: if_splits option.splits)
  have fin: "finite (dom dup_schema)"
    by (simp add: dup_schema_def)
  have acyc: "acyclic (extends_rel dup_schema)"
    by (simp add: rel wf_acyclic)
  have val: "get_struct_fields ''User'' dup_schema =
     Some [FieldDef ''id'' (builtin ''int'') None,
           FieldDef ''name'' (builtin ''int'') (Some True)]"
    by (simp add: get_struct_fields.simps dup_schema_def schema_eval add_child_fields_def)
  show ?thesis
    using get_struct_fields_distinct [OF fin acyc, of "''User''"] fin acyc val by blast
qed

section \<open>Validation\<close>

subsection \<open>The dispatch of \<^verbatim>\<open>validate_type\<close>, branch by branch\<close>

lemma validate_type_none:
  "validate_type VNone type_def all_structs all_enums is_optional =
     (if is_optional then Inr () else Inl NoneNotAllowed)"
  by (simp add: validate_type.simps)

lemma validate_type_builtin:
  "v \<noteq> VNone \<Longrightarrow>
   validate_type v (builtin kind) all_structs all_enums is_optional =
     (if kind = ''string'' then validate_string v
      else if kind = ''int'' then validate_int v
      else if kind = ''float'' then validate_float v
      else if kind = ''bool'' then validate_bool v
      else Inl (InvalidTypeDef (builtin kind)))"
  by (simp add: validate_type.simps builtin_def truthy_def)

lemma validate_type_array:
  "v \<noteq> VNone \<Longrightarrow>
   validate_type v (array_type t) all_structs all_enums is_optional =
     (if type_def_nonempty t
      then validate_array v (\<lambda>x. validate_type x t all_structs all_enums False)
      else Inl (InvalidTypeDef (array_type t)))"
  by (subst validate_type.simps) (simp add: array_type_def truthy_def)

lemma validate_type_map:
  "v \<noteq> VNone \<Longrightarrow>
   validate_type v (map_type t) all_structs all_enums is_optional =
     (if type_def_nonempty t
      then validate_map v (\<lambda>x. validate_type x t all_structs all_enums False)
      else Inl (InvalidTypeDef (map_type t)))"
  by (subst validate_type.simps) (simp add: map_type_def truthy_def)

lemma validate_type_user_defined:
  "v \<noteq> VNone \<Longrightarrow> user_type \<noteq> [] \<Longrightarrow>
   validate_type v (user_defined user_type) all_structs all_enums is_optional =
     (case truthy struct_def_nonempty (find_struct user_type all_structs) of
        Some struct_def \<Rightarrow> validate_struct v user_type struct_def all_structs all_enums
      | None \<Rightarrow>
          (case truthy enum_def_nonempty (find_enum user_type all_enums) of
             Some enum_def \<Rightarrow>
               validate_enum v user_type
                 (map enum_value_name (get_or (enum_values enum_def) []))
           | None \<Rightarrow> Inl (UnknownUserType user_type)))"
  by (subst validate_type.simps)
     (simp add: user_defined_def truthy_def str_nonempty_def split: option.splits)

lemma validate_type_not_none_optional:
  "v \<noteq> VNone \<Longrightarrow>
   validate_type v type_def all_structs all_enums is_optional =
   validate_type v type_def all_structs all_enums is_optional'"
  by (subst validate_type.simps, subst (2) validate_type.simps) simp

subsection \<open>What the loops return\<close>

lemma validate_array_loop_ok:
  "validate_array_loop i elems f = Inr () \<longleftrightarrow> (\<forall>x \<in> set elems. f x = Inr ())"
  by (induction elems arbitrary: i) (auto split: sum.splits)

lemma validate_array_loop_first_failure:
  "(\<forall>x \<in> set pre. f x = Inr ()) \<Longrightarrow> f x = Inl e \<Longrightarrow>
   validate_array_loop i (pre @ x # post) f = Inl (ArrayElementFailed (i + length pre) e)"
  by (induction pre arbitrary: i) (auto split: sum.splits)

lemma validate_map_loop_ok:
  "validate_map_loop items f = Inr () \<longleftrightarrow>
     (\<forall>(k, val) \<in> set items. isinstance_str k \<and> f val = Inr ())"
  by (induction items f rule: validate_map_loop.induct)
     (auto split: sum.splits pyval.splits)

lemma validate_map_loop_skip:
  "(\<forall>(k, val) \<in> set pre. isinstance_str k \<and> f val = Inr ()) \<Longrightarrow>
   validate_map_loop (pre @ rest) f = validate_map_loop rest f"
  by (induction pre f rule: validate_map_loop.induct)
     (auto split: sum.splits pyval.splits)

lemma validate_struct_loop_ok:
  "validate_struct_loop items struct_name flds fv = Inr () \<longleftrightarrow>
     (\<forall>fld \<in> set flds. field_check items fv fld)"
  by (induction flds) (auto simp: field_check_def split: option.splits sum.splits)

lemma validate_struct_loop_skip:
  "(\<forall>fld \<in> set pre. field_check items fv fld) \<Longrightarrow>
   validate_struct_loop items struct_name (pre @ rest) fv =
   validate_struct_loop items struct_name rest fv"
  by (induction pre) (auto simp: field_check_def split: option.splits sum.splits)

lemma validate_struct_loop_lookup:
  "(\<And>fld. fld \<in> set flds \<Longrightarrow>
      map_of items (VStr (field_name fld)) = map_of items' (VStr (field_name fld))) \<Longrightarrow>
   validate_struct_loop items struct_name flds fv =
   validate_struct_loop items' struct_name flds fv"
  by (induction flds) (simp_all split: option.splits sum.splits)

lemma map_of_extra_key:
  "key \<noteq> k \<Longrightarrow> map_of (items1 @ (key, x) # items2) k = map_of (items1 @ items2) k"
  by (simp add: map_add_def split: option.splits)

subsection \<open>Null values\<close>

text \<open>
  C4. A null value is settled before the type definition is looked at: whatever the
  type definition and the schema are (also a type definition that no branch of the
  dispatch accepts, a name that resolves to nothing, or a struct whose \<^verbatim>\<open>extends\<close>
  chain is cyclic), validating \<^verbatim>\<open>None\<close> succeeds when \<open>is_optional\<close> is true and
  fails with the "cannot be None" error when it is false. The witness takes the
  empty type definition, which every other value is refused for.
\<close>

theorem validate_type_none_first:
  "validate_type VNone type_def all_structs all_enums True = Inr () \<and>
   validate_type VNone type_def all_structs all_enums False = Inl NoneNotAllowed \<and>
   (validate_type VNone type_def all_structs all_enums is_optional = Inr () \<longleftrightarrow> is_optional)"
  by (simp add: validate_type_none)

theorem validate_type_none_first_witness:
  "validate_type VNone (TypeDef None None None None) Map.empty Map.empty True = Inr () \<and>
   validate_type VNone (TypeDef None None None None) Map.empty Map.empty False
     = Inl NoneNotAllowed \<and>
   validate_type (VInt 1) (TypeDef None None None None) Map.empty Map.empty True
     = Inl (InvalidTypeDef (TypeDef None None None None))"
  using validate_type_none_first [of "TypeDef None None None None" Map.empty Map.empty True]
  by (simp add: validate_type.simps truthy_def)

subsection \<open>Primitive types\<close>

text \<open>
  C3. \<^verbatim>\<open>validate_bool\<close> accepts the Booleans and nothing else, so an integer is
  refused as a \<^verbatim>\<open>bool\<close> (\<open>validate_bool_only_bool\<close> below). The other direction does
  not hold in the code: \<^verbatim>\<open>validate_int\<close> tests \<^verbatim>\<open>isinstance(value, int)\<close>, which is
  true of \<^verbatim>\<open>True\<close> and \<^verbatim>\<open>False\<close>, so every Boolean is accepted as an \<^verbatim>\<open>int\<close>.
\<close>

theorem validate_int_accepts_bool:
  "validate_type (VBool b) (builtin ''int'') all_structs all_enums is_optional = Inr () \<and>
   validate_int (VBool b) = Inr ()"
  by (simp add: validate_type_builtin validate_int_def)

lemma validate_bool_only_bool:
  "(validate_bool v = Inr () \<longleftrightarrow> (\<exists>b. v = VBool b)) \<and>
   validate_type (VInt i) (builtin ''bool'') all_structs all_enums is_optional
     = Inl (ExpectedBool ''int'')"
  by (cases v) (simp_all add: validate_type_builtin validate_bool_def)

text \<open>
  C6, as stated: \<^verbatim>\<open>int\<close> validation succeeds exactly on the integral numbers. It
  does not: the float \<open>3.0\<close> is an integral number and is refused, and \<^verbatim>\<open>True\<close> is no
  number and is accepted.
\<close>

theorem validate_int_integral_counterexample:
  "validate_type (VFloat (Finite 3)) (builtin ''int'') Map.empty Map.empty False
     = Inl (ExpectedInt ''float'') \<and>
   spec_integral_number (VFloat (Finite 3)) \<and>
   validate_type (VBool True) (builtin ''int'') Map.empty Map.empty False = Inr () \<and>
   \<not> spec_integral_number (VBool True)"
  by (simp add: validate_type_builtin validate_int_def)

text \<open>
  C6, amended. For every value that is not a Boolean, validation against \<^verbatim>\<open>int\<close>
  succeeds exactly when the value is of integer type: every float is refused,
  with or without a fractional part. Validation against \<^verbatim>\<open>float\<close> accepts every
  integer and every float, and among the values that are not Booleans nothing
  else; so the widening goes from \<^verbatim>\<open>int\<close> to \<^verbatim>\<open>float\<close> only. (What the two
  validators do with a Boolean is C3's subject.)
\<close>

theorem validate_int_float_widening:
  "(\<not> isinstance_bool v \<longrightarrow>
      (validate_type v (builtin ''int'') all_structs all_enums False = Inr ()
         \<longleftrightarrow> (\<exists>i. v = VInt i))) \<and>
   validate_type (VFloat x) (builtin ''int'') all_structs all_enums is_optional
     = Inl (ExpectedInt ''float'') \<and>
   validate_type (VInt i) (builtin ''float'') all_structs all_enums is_optional = Inr () \<and>
   validate_type (VFloat x) (builtin ''float'') all_structs all_enums is_optional = Inr () \<and>
   (\<not> isinstance_bool v \<longrightarrow>
      (validate_type v (builtin ''float'') all_structs all_enums False = Inr ()
         \<longleftrightarrow> (\<exists>i. v = VInt i) \<or> (\<exists>x. v = VFloat x)))"
  by (cases v)
     (simp_all add: validate_type_builtin validate_int_def validate_float_def
        validate_type_none)

theorem validate_int_float_widening_witness:
  "\<not> isinstance_bool (VFloat (Finite 3.14)) \<and>
   validate_type (VFloat (Finite 3.14)) (builtin ''int'') Map.empty Map.empty False \<noteq> Inr () \<and>
   validate_type (VFloat (Finite 3)) (builtin ''int'') Map.empty Map.empty False \<noteq> Inr () \<and>
   validate_type (VInt 42) (builtin ''float'') Map.empty Map.empty False = Inr () \<and>
   validate_type (VFloat (Finite 3.14)) (builtin ''float'') Map.empty Map.empty False = Inr ()"
  using validate_int_float_widening
    [of "VFloat (Finite 3.14)" Map.empty Map.empty "Finite 3" False 42]
    validate_int_float_widening
    [of "VFloat (Finite 3.14)" Map.empty Map.empty "Finite 3.14" False 42]
  by simp

subsection \<open>Arrays and maps\<close>

text \<open>
  C7. The elements of an array and the values of a map are validated with
  \<open>is_optional = False\<close>, whatever the flag of the collection is. So a list that
  holds \<^verbatim>\<open>None\<close> is never a valid array and a dictionary that holds \<^verbatim>\<open>None\<close> as a
  value is never a valid map; when the elements before the first \<^verbatim>\<open>None\<close> are
  valid, the error is the "cannot be None" error at that index.
\<close>

theorem collection_parts_not_optional:
  "(VNone \<in> set elems \<longrightarrow>
      validate_type (VList elems) (array_type t) all_structs all_enums is_optional \<noteq> Inr ()) \<and>
   ((k, VNone) \<in> set items \<longrightarrow>
      validate_type (VDict items) (map_type t) all_structs all_enums is_optional \<noteq> Inr ()) \<and>
   (type_def_nonempty t \<longrightarrow>
      validate_type (VList elems) (array_type t) all_structs all_enums is_optional =
        validate_array_loop 0 elems (\<lambda>x. validate_type x t all_structs all_enums False) \<and>
      validate_type (VDict items) (map_type t) all_structs all_enums is_optional =
        validate_map_loop items (\<lambda>x. validate_type x t all_structs all_enums False)) \<and>
   (type_def_nonempty t \<and>
    (\<forall>x \<in> set pre. validate_type x t all_structs all_enums False = Inr ()) \<longrightarrow>
      validate_type (VList (pre @ VNone # post)) (array_type t) all_structs all_enums is_optional
        = Inl (ArrayElementFailed (length pre) NoneNotAllowed))"
proof (intro conjI impI)
  have none: "validate_type VNone t all_structs all_enums False \<noteq> Inr ()"
    by (simp add: validate_type_none)
  assume "VNone \<in> set elems"
  with none have "\<not> (\<forall>x \<in> set elems. validate_type x t all_structs all_enums False = Inr ())"
    by blast
  then show "validate_type (VList elems) (array_type t) all_structs all_enums is_optional \<noteq> Inr ()"
    by (simp add: validate_type_array validate_array_def validate_array_loop_ok)
next
  have none: "validate_type VNone t all_structs all_enums False \<noteq> Inr ()"
    by (simp add: validate_type_none)
  assume "(k, VNone) \<in> set items"
  with none have "\<not> (\<forall>(k, val) \<in> set items.
      isinstance_str k \<and> validate_type val t all_structs all_enums False = Inr ())"
    by blast
  then show "validate_type (VDict items) (map_type t) all_structs all_enums is_optional \<noteq> Inr ()"
    by (simp add: validate_type_map validate_map_def validate_map_loop_ok)
next
  assume "type_def_nonempty t"
  then show "validate_type (VList elems) (array_type t) all_structs all_enums is_optional =
        validate_array_loop 0 elems (\<lambda>x. validate_type x t all_structs all_enums False)"
    by (simp add: validate_type_array validate_array_def)
next
  assume "type_def_nonempty t"
  then show "validate_type (VDict items) (map_type t) all_structs all_enums is_optional =
        validate_map_loop items (\<lambda>x. validate_type x t all_structs all_enums False)"
    by (simp add: validate_type_map validate_map_def)
next
  assume a: "type_def_nonempty t \<and>
    (\<forall>x \<in> set pre. validate_type x t all_structs all_enums False = Inr ())"
  have "validate_type VNone t all_structs all_enums False = Inl NoneNotAllowed"
    by (simp add: validate_type_none)
  then show "validate_type (VList (pre @ VNone # post)) (array_type t) all_structs all_enums
      is_optional = Inl (ArrayElementFailed (length pre) NoneNotAllowed)"
    using a validate_array_loop_first_failure
      [of pre "\<lambda>x. validate_type x t all_structs all_enums False" VNone NoneNotAllowed 0 post]
    by (simp add: validate_type_array validate_array_def)
qed

theorem collection_parts_not_optional_witness:
  "VNone \<in> set [VStr ''a'', VNone] \<and>
   validate_type (VList [VStr ''a'', VNone]) (array_type (builtin ''string''))
      Map.empty Map.empty True
     = Inl (ArrayElementFailed 1 NoneNotAllowed) \<and>
   (VStr ''k'', VNone) \<in> set [(VStr ''k'', VNone)] \<and>
   validate_type (VDict [(VStr ''k'', VNone)]) (map_type (builtin ''string''))
      Map.empty Map.empty True
     = Inl (MapValueFailed ''k'' NoneNotAllowed) \<and>
   type_def_nonempty (builtin ''string'')"
proof -
  have ne: "type_def_nonempty (builtin ''string'')"
    by (simp add: type_def_nonempty_def builtin_def)
  have pre: "\<forall>x \<in> set [VStr ''a'']. validate_type x (builtin ''string'') Map.empty Map.empty False = Inr ()"
    by (simp add: validate_type_builtin validate_string_def)
  show ?thesis
    using collection_parts_not_optional
      [of "[VStr ''a'', VNone]" "builtin ''string''" Map.empty Map.empty True
          "VStr ''k''" "[(VStr ''k'', VNone)]" "[VStr ''a'']" "[]"] ne pre
    by (simp add: validate_type_none)
qed

text \<open>
  C8. \<^verbatim>\<open>validate_map\<close> succeeds exactly on a dictionary all of whose keys are strings
  and all of whose values pass the value validator. At the first item that does not
  pass, a key that is not a string gives the key error whatever its value is (the
  value validator is not consulted), and a string key with a failing value gives the
  value error that carries the key and the error of the value. A map type with
  value type \<open>value_type\<close> runs \<^verbatim>\<open>validate_map\<close> with the validator of \<open>value_type\<close>.
\<close>

theorem validate_map_keys_values:
  "(validate_map v value_validator = Inr () \<longleftrightarrow>
      (\<exists>items. v = VDict items \<and>
         (\<forall>(k, val) \<in> set items. isinstance_str k \<and> value_validator val = Inr ()))) \<and>
   ((\<forall>(k, val) \<in> set pre. isinstance_str k \<and> value_validator val = Inr ()) \<and>
    \<not> isinstance_str key \<longrightarrow>
      validate_map (VDict (pre @ (key, x) # post)) value_validator
        = Inl (MapKeyNotString (type_name key))) \<and>
   ((\<forall>(k, val) \<in> set pre. isinstance_str k \<and> value_validator val = Inr ()) \<and>
    value_validator x = Inl e \<longrightarrow>
      validate_map (VDict (pre @ (VStr name, x) # post)) value_validator
        = Inl (MapValueFailed name e)) \<and>
   (v \<noteq> VNone \<and> type_def_nonempty value_type \<longrightarrow>
      validate_type v (map_type value_type) all_structs all_enums is_optional =
        validate_map v (\<lambda>val. validate_type val value_type all_structs all_enums False)) \<and>
   (type_def_nonempty value_type \<longrightarrow>
      (validate_type v (map_type value_type) all_structs all_enums False = Inr () \<longleftrightarrow>
         (\<exists>items. v = VDict items \<and>
            (\<forall>(k, val) \<in> set items.
               isinstance_str k \<and>
               validate_type val value_type all_structs all_enums False = Inr ()))))"
proof (intro conjI impI)
  assume "type_def_nonempty value_type"
  then show "validate_type v (map_type value_type) all_structs all_enums False = Inr () \<longleftrightarrow>
         (\<exists>items. v = VDict items \<and>
            (\<forall>(k, val) \<in> set items.
               isinstance_str k \<and>
               validate_type val value_type all_structs all_enums False = Inr ()))"
    by (cases v)
       (simp_all add: validate_type_none validate_type_map validate_map_def
          validate_map_loop_ok)
next
  show "validate_map v value_validator = Inr () \<longleftrightarrow>
      (\<exists>items. v = VDict items \<and>
         (\<forall>(k, val) \<in> set items. isinstance_str k \<and> value_validator val = Inr ()))"
    by (cases v) (simp_all add: validate_map_def validate_map_loop_ok)
next
  assume "(\<forall>(k, val) \<in> set pre. isinstance_str k \<and> value_validator val = Inr ()) \<and>
    \<not> isinstance_str key"
  then show "validate_map (VDict (pre @ (key, x) # post)) value_validator
        = Inl (MapKeyNotString (type_name key))"
    by (cases key) (simp_all add: validate_map_def validate_map_loop_skip)
next
  assume "(\<forall>(k, val) \<in> set pre. isinstance_str k \<and> value_validator val = Inr ()) \<and>
    value_validator x = Inl e"
  then show "validate_map (VDict (pre @ (VStr name, x) # post)) value_validator
        = Inl (MapValueFailed name e)"
    by (simp add: validate_map_def validate_map_loop_skip)
next
  assume "v \<noteq> VNone \<and> type_def_nonempty value_type"
  then show "validate_type v (map_type value_type) all_structs all_enums is_optional =
        validate_map v (\<lambda>val. validate_type val value_type all_structs all_enums False)"
    by (simp add: validate_type_map)
qed

theorem validate_map_keys_values_witness:
  "validate_type (VDict [(VInt 123, VStr ''x'')]) (map_type (builtin ''string''))
      Map.empty Map.empty False = Inl (MapKeyNotString ''int'') \<and>
   validate_type (VDict [(VInt 123, VInt 5)]) (map_type (builtin ''string''))
      Map.empty Map.empty False = Inl (MapKeyNotString ''int'') \<and>
   validate_type (VDict [(VStr ''a'', VStr ''not an int'')]) (map_type (builtin ''int''))
      Map.empty Map.empty False = Inl (MapValueFailed ''a'' (ExpectedInt ''str'')) \<and>
   validate_type (VDict [(VStr ''a'', VInt 1), (VStr ''b'', VInt 2)]) (map_type (builtin ''int''))
      Map.empty Map.empty False = Inr ()"
proof -
  let ?str = "\<lambda>val. validate_type val (builtin ''string'') Map.empty Map.empty False"
  let ?int = "\<lambda>val. validate_type val (builtin ''int'') Map.empty Map.empty False"
  have ne: "type_def_nonempty (builtin ''string'')" "type_def_nonempty (builtin ''int'')"
    by (simp_all add: type_def_nonempty_def builtin_def)
  have bad: "?int (VStr ''not an int'') = Inl (ExpectedInt ''str'')"
    by (simp add: validate_type_builtin validate_int_def)
  have good: "?int (VInt 1) = Inr ()" "?int (VInt 2) = Inr ()"
    by (simp_all add: validate_type_builtin validate_int_def)
  show ?thesis
    using
      validate_map_keys_values
        [where v = "VDict [(VInt 123, VStr ''x'')]" and value_validator = ?str
           and pre = "[]" and key = "VInt 123" and x = "VStr ''x''" and post = "[]"
           and value_type = "builtin ''string''" and all_structs = Map.empty
           and all_enums = Map.empty and is_optional = False]
      validate_map_keys_values
        [where v = "VDict [(VInt 123, VInt 5)]" and value_validator = ?str
           and pre = "[]" and key = "VInt 123" and x = "VInt 5" and post = "[]"
           and value_type = "builtin ''string''" and all_structs = Map.empty
           and all_enums = Map.empty and is_optional = False]
      validate_map_keys_values
        [where v = "VDict [(VStr ''a'', VStr ''not an int'')]" and value_validator = ?int
           and pre = "[]" and x = "VStr ''not an int''" and post = "[]"
           and e = "ExpectedInt ''str''" and name = "''a''"
           and value_type = "builtin ''int''" and all_structs = Map.empty
           and all_enums = Map.empty and is_optional = False]
      validate_map_keys_values
        [where v = "VDict [(VStr ''a'', VInt 1), (VStr ''b'', VInt 2)]"
           and value_validator = ?int
           and value_type = "builtin ''int''" and all_structs = Map.empty
           and all_enums = Map.empty and is_optional = False]
      ne bad good
    by simp
qed

subsection \<open>User-defined types\<close>

text \<open>
  C5. For a type reference \<^verbatim>\<open>{'userDefined': name}\<close> and a value that is not null,
  the name is looked up among the structs first: when a struct is found, the value is
  validated as that struct, whether or not an enum of the same name exists. When no
  struct is found and an enum is, the value is valid exactly when it is a string
  equal to one of the enum's value names. When neither is found, validation fails
  with the unknown-type error. A name is a string that is not empty, and a
  definition that is found is a dictionary that is not empty.
\<close>

theorem user_defined_struct_first:
  assumes "v \<noteq> VNone" and "user_type \<noteq> []"
  shows
  "(find_struct user_type all_structs = Some struct_def \<and> struct_def_nonempty struct_def \<longrightarrow>
      validate_type v (user_defined user_type) all_structs all_enums is_optional =
        validate_struct v user_type struct_def all_structs all_enums) \<and>
   (find_struct user_type all_structs = None \<and>
    find_enum user_type all_enums = Some enum_def \<and> enum_def_nonempty enum_def \<longrightarrow>
      validate_type v (user_defined user_type) all_structs all_enums is_optional =
        validate_enum v user_type (map enum_value_name (get_or (enum_values enum_def) [])) \<and>
      (validate_type v (user_defined user_type) all_structs all_enums is_optional = Inr () \<longleftrightarrow>
        (\<exists>s. v = VStr s \<and>
           s \<in> set (map enum_value_name (get_or (enum_values enum_def) []))))) \<and>
   (find_struct user_type all_structs = None \<and> find_enum user_type all_enums = None \<longrightarrow>
      validate_type v (user_defined user_type) all_structs all_enums is_optional =
        Inl (UnknownUserType user_type))"
proof (intro conjI impI)
  assume "find_struct user_type all_structs = Some struct_def \<and> struct_def_nonempty struct_def"
  then show "validate_type v (user_defined user_type) all_structs all_enums is_optional =
        validate_struct v user_type struct_def all_structs all_enums"
    using assms by (simp add: validate_type_user_defined truthy_def)
next
  assume a: "find_struct user_type all_structs = None \<and>
    find_enum user_type all_enums = Some enum_def \<and> enum_def_nonempty enum_def"
  then show eq: "validate_type v (user_defined user_type) all_structs all_enums is_optional =
        validate_enum v user_type (map enum_value_name (get_or (enum_values enum_def) []))"
    using assms by (simp add: validate_type_user_defined truthy_def)
  show "validate_type v (user_defined user_type) all_structs all_enums is_optional = Inr () \<longleftrightarrow>
        (\<exists>s. v = VStr s \<and> s \<in> set (map enum_value_name (get_or (enum_values enum_def) [])))"
    unfolding eq by (cases v) (simp_all add: validate_enum_def)
next
  assume "find_struct user_type all_structs = None \<and> find_enum user_type all_enums = None"
  then show "validate_type v (user_defined user_type) all_structs all_enums is_optional =
        Inl (UnknownUserType user_type)"
    using assms by (simp add: validate_type_user_defined truthy_def)
qed

theorem user_defined_struct_first_witness:
  "validate_type (VStr ''nook'') (user_defined ''Platform'') Map.empty platform_enums False
     = Inr () \<and>
   validate_type (VStr ''kobo'') (user_defined ''Platform'') Map.empty platform_enums False
     = Inl (InvalidEnumValue ''Platform'' ''kobo'' [''kindle'', ''nook'']) \<and>
   validate_type (VStr ''nook'') (user_defined ''Platform'') platform_structs platform_enums False
     = Inl (ExpectedStructDict ''Platform'' ''str'') \<and>
   validate_type (VDict []) (user_defined ''Platform'') platform_structs platform_enums False
     = Inr () \<and>
   validate_type (VStr ''nook'') (user_defined ''Platform'') Map.empty Map.empty False
     = Inl (UnknownUserType ''Platform'')"
proof -
  let ?sd = "StructDef None (Some [])"
  let ?ed = "EnumDef (Some [EnumValue ''kindle'', EnumValue ''nook''])"
  have fields: "get_struct_fields ''Platform'' platform_structs = Some []"
    by (simp add: get_struct_fields.simps platform_structs_def schema_eval
        add_child_fields_def)
  have s: "find_struct ''Platform'' platform_structs = Some ?sd \<and> struct_def_nonempty ?sd"
    by (simp add: platform_structs_def find_struct_def struct_def_nonempty_def)
  have e: "find_struct ''Platform'' Map.empty = None \<and>
      find_enum ''Platform'' platform_enums = Some ?ed \<and> enum_def_nonempty ?ed"
    by (simp add: platform_enums_def find_struct_def find_enum_def enum_def_nonempty_def)
  have n: "find_struct ''Platform'' Map.empty = None \<and> find_enum ''Platform'' Map.empty = None"
    by (simp add: find_struct_def find_enum_def)
  show ?thesis
    using
      user_defined_struct_first [where v = "VStr ''nook''" and user_type = "''Platform''"
        and all_structs = Map.empty and all_enums = platform_enums and enum_def = ?ed
        and is_optional = False]
      user_defined_struct_first [where v = "VStr ''kobo''" and user_type = "''Platform''"
        and all_structs = Map.empty and all_enums = platform_enums and enum_def = ?ed
        and is_optional = False]
      user_defined_struct_first [where v = "VStr ''nook''" and user_type = "''Platform''"
        and all_structs = platform_structs and all_enums = platform_enums
        and struct_def = ?sd and is_optional = False]
      user_defined_struct_first [where v = "VDict []" and user_type = "''Platform''"
        and all_structs = platform_structs and all_enums = platform_enums
        and struct_def = ?sd and is_optional = False]
      user_defined_struct_first [where v = "VStr ''nook''" and user_type = "''Platform''"
        and all_structs = Map.empty and all_enums = Map.empty and is_optional = False]
      s e n fields
    by (simp add: validate_struct.simps validate_enum_def get_or_def)
qed

subsection \<open>Structs\<close>

text \<open>
  C2. Let \<open>flds\<close> be the resolved field list of the struct and the value a
  dictionary. Validation succeeds exactly when every field of \<open>flds\<close> passes
  \<open>field_check\<close>: a field whose key is absent passes iff it is optional, a field whose
  key holds \<^verbatim>\<open>None\<close> passes iff it is optional, and any other value must validate
  against the field's type. At the first field that does not pass, an absent key
  gives the missing-required-field error and a \<^verbatim>\<open>None\<close> gives the cannot-be-None
  error, both with the field and struct names. A key of the value that is not the
  name of a field of \<open>flds\<close> changes nothing: the result with it is the result
  without it.
\<close>

theorem validate_struct_fields:
  assumes "get_struct_fields struct_name all_structs = Some flds"
  shows
  "(validate_struct (VDict items) struct_name struct_def all_structs all_enums = Inr () \<longleftrightarrow>
      (\<forall>fld \<in> set flds.
         field_check items
           (\<lambda>fld x. validate_type x (field_type fld) all_structs all_enums (is_optional_of fld))
           fld)) \<and>
   (flds = pre @ fld # post \<and>
    (\<forall>f \<in> set pre.
       field_check items
         (\<lambda>fld x. validate_type x (field_type fld) all_structs all_enums (is_optional_of fld))
         f) \<longrightarrow>
      (map_of items (VStr (field_name fld)) = None \<and> \<not> is_optional_of fld \<longrightarrow>
         validate_struct (VDict items) struct_name struct_def all_structs all_enums
           = Inl (MissingRequiredField (field_name fld) struct_name)) \<and>
      (map_of items (VStr (field_name fld)) = Some VNone \<and> \<not> is_optional_of fld \<longrightarrow>
         validate_struct (VDict items) struct_name struct_def all_structs all_enums
           = Inl (FieldCannotBeNone (field_name fld) struct_name))) \<and>
   (key \<notin> VStr ` field_name ` set flds \<longrightarrow>
      validate_struct (VDict (items1 @ (key, x) # items2)) struct_name struct_def
          all_structs all_enums =
      validate_struct (VDict (items1 @ items2)) struct_name struct_def all_structs all_enums)"
proof (intro conjI impI)
  let ?fv = "\<lambda>fld x. validate_type x (field_type fld) all_structs all_enums (is_optional_of fld)"
  show "validate_struct (VDict items) struct_name struct_def all_structs all_enums = Inr () \<longleftrightarrow>
      (\<forall>fld \<in> set flds. field_check items ?fv fld)"
    by (simp add: validate_struct.simps assms validate_struct_loop_ok)
next
  let ?fv = "\<lambda>fld x. validate_type x (field_type fld) all_structs all_enums (is_optional_of fld)"
  assume a: "flds = pre @ fld # post \<and> (\<forall>f \<in> set pre. field_check items ?fv f)"
  assume b: "map_of items (VStr (field_name fld)) = None \<and> \<not> is_optional_of fld"
  have "validate_struct_loop items struct_name (pre @ fld # post) ?fv =
        validate_struct_loop items struct_name (fld # post) ?fv"
    using a by (intro validate_struct_loop_skip) simp
  then show "validate_struct (VDict items) struct_name struct_def all_structs all_enums
           = Inl (MissingRequiredField (field_name fld) struct_name)"
    using a b assms by (simp add: validate_struct.simps)
next
  let ?fv = "\<lambda>fld x. validate_type x (field_type fld) all_structs all_enums (is_optional_of fld)"
  assume a: "flds = pre @ fld # post \<and> (\<forall>f \<in> set pre. field_check items ?fv f)"
  assume b: "map_of items (VStr (field_name fld)) = Some VNone \<and> \<not> is_optional_of fld"
  have "validate_struct_loop items struct_name (pre @ fld # post) ?fv =
        validate_struct_loop items struct_name (fld # post) ?fv"
    using a by (intro validate_struct_loop_skip) simp
  then show "validate_struct (VDict items) struct_name struct_def all_structs all_enums
           = Inl (FieldCannotBeNone (field_name fld) struct_name)"
    using a b assms by (simp add: validate_struct.simps)
next
  let ?fv = "\<lambda>fld x. validate_type x (field_type fld) all_structs all_enums (is_optional_of fld)"
  assume k: "key \<notin> VStr ` field_name ` set flds"
  have "validate_struct_loop (items1 @ (key, x) # items2) struct_name flds ?fv =
        validate_struct_loop (items1 @ items2) struct_name flds ?fv"
  proof (rule validate_struct_loop_lookup)
    fix f assume "f \<in> set flds"
    then have "key \<noteq> VStr (field_name f)" using k by auto
    then show "map_of (items1 @ (key, x) # items2) (VStr (field_name f)) =
               map_of (items1 @ items2) (VStr (field_name f))"
      by (rule map_of_extra_key)
  qed
  then show "validate_struct (VDict (items1 @ (key, x) # items2)) struct_name struct_def
          all_structs all_enums =
      validate_struct (VDict (items1 @ items2)) struct_name struct_def all_structs all_enums"
    using assms by (simp add: validate_struct.simps)
qed

theorem validate_struct_fields_witness:
  "get_struct_fields ''User'' user_schema =
     Some [FieldDef ''id'' (builtin ''string'') (Some False),
           FieldDef ''email'' (builtin ''string'') (Some True)] \<and>
   validate_struct (VDict []) ''User'' (StructDef None None) user_schema Map.empty
     = Inl (MissingRequiredField ''id'' ''User'') \<and>
   validate_struct (VDict [(VStr ''id'', VNone)]) ''User'' (StructDef None None)
      user_schema Map.empty
     = Inl (FieldCannotBeNone ''id'' ''User'') \<and>
   validate_struct (VDict [(VStr ''id'', VStr ''123'')]) ''User'' (StructDef None None)
      user_schema Map.empty = Inr () \<and>
   validate_struct (VDict [(VStr ''id'', VStr ''123''), (VStr ''email'', VNone)]) ''User''
      (StructDef None None) user_schema Map.empty = Inr () \<and>
   validate_struct (VDict [(VStr ''id'', VStr ''123''), (VStr ''extra'', VInt 5)]) ''User''
      (StructDef None None) user_schema Map.empty = Inr ()"
proof -
  let ?id = "FieldDef ''id'' (builtin ''string'') (Some False)"
  let ?email = "FieldDef ''email'' (builtin ''string'') (Some True)"
  have flds: "get_struct_fields ''User'' user_schema = Some [?id, ?email]"
    by (simp add: get_struct_fields.simps user_schema_def schema_eval add_child_fields_def)
  have str: "validate_type (VStr ''123'') (builtin ''string'') user_schema Map.empty False
      = Inr ()"
    by (simp add: validate_type_builtin validate_string_def)
  have extra: "VStr ''extra'' \<notin> VStr ` field_name ` set [?id, ?email]"
    by simp
  note t = validate_struct_fields [OF flds, where all_enums = Map.empty
      and struct_def = "StructDef None None" and pre = "[]" and fld = ?id and post = "[?email]"]
  show ?thesis
    using flds str
      t [where items = "[]"]
      t [where items = "[(VStr ''id'', VNone)]"]
      t [where items = "[(VStr ''id'', VStr ''123'')]"
           and ?items1.0 = "[(VStr ''id'', VStr ''123'')]" and key = "VStr ''extra''"
           and x = "VInt 5" and ?items2.0 = "[]"]
      t [where items = "[(VStr ''id'', VStr ''123''), (VStr ''email'', VNone)]"]
    by (simp add: field_check_def is_optional_of_def get_or_def)
qed

end
